theory Spec2Isabelle
  imports Complex_Main
begin

section \<open>Values and errors\<close>

text \<open>
  The module \<^verbatim>\<open>gptransits/plot.py\<close> works on numpy arrays of float64. A one-dimensional
  array is modelled as a \<open>real list\<close>: arithmetic is exact real arithmetic, so rounding and
  overflow of float64 are not part of the model. The one float effect that is kept is
  division by zero, which numpy answers with \<open>inf\<close> or \<open>nan\<close> (and a warning) instead of an
  exception: a value that is not finite is \<open>None\<close>. The curves that \<^verbatim>\<open>get_psd\<close> and the
  periodogram hand over are such arrays, so every in-place operation of the module is an
  operation on floats.
\<close>

datatype py_error = KeyError string | ValueError | IndexError | AttributeError | OtherError string

definition bind_err :: "py_error + 'a \<Rightarrow> ('a \<Rightarrow> py_error + 'b) \<Rightarrow> py_error + 'b" where
  "bind_err r f = (case r of Inl e \<Rightarrow> Inl e | Inr v \<Rightarrow> f v)"

definition getitem :: "(string \<rightharpoonup> 'v) \<Rightarrow> string \<Rightarrow> py_error + 'v" where
  \<comment> \<open>\<^verbatim>\<open>d[name]\<close> on a dict: a missing key raises KeyError(name).\<close>
  "getitem d name = (case d name of None \<Rightarrow> Inl (KeyError name) | Some v \<Rightarrow> Inr v)"

definition np_iadd :: "real list \<Rightarrow> real list \<Rightarrow> py_error + real list" where
  \<comment> \<open>\<^verbatim>\<open>acc += p\<close> on one-dimensional arrays: element-wise when the shapes agree, \<open>p\<close> of
      shape (1,) is broadcast, and any other shape raises ValueError (the result must
      have the shape of \<open>acc\<close>).\<close>
  "np_iadd acc p =
     (if length p = length acc then Inr (map2 (+) acc p)
      else if length p = 1 then Inr (map (\<lambda>a. a + p ! 0) acc)
      else Inl ValueError)"

definition np_div :: "real \<Rightarrow> real \<Rightarrow> real option" where
  \<comment> \<open>float64 division: a zero divisor gives \<open>inf\<close> or \<open>nan\<close>, here \<open>None\<close>.\<close>
  "np_div x y = (if y = 0 then None else Some (x / y))"

definition np_mean :: "real list \<Rightarrow> real option" where
  "np_mean xs = np_div (sum_list xs) (real (length xs))"

definition np_var :: "real list \<Rightarrow> real option" where
  \<comment> \<open>\<^verbatim>\<open>np.var\<close> with its default \<open>ddof = 0\<close>: the mean squared deviation from the mean.\<close>
  "np_var xs =
     (case np_mean xs of
        None \<Rightarrow> None
      | Some m \<Rightarrow> np_mean (map (\<lambda>x. (x - m)\<^sup>2) xs))"

section \<open>plot\_gp: the error bars\<close>

text \<open>
  The value handed to \<^verbatim>\<open>errorbar\<close> as \<^verbatim>\<open>yerr\<close> is Python's \<open>None\<close> or an array. The model
  object may or may not have an attribute \<^verbatim>\<open>error\<close>: \<open>error_attr\<close> is \<open>None\<close> when the
  attribute is absent.
\<close>

datatype yerr = PyNone | Errs "real list"

record gp_model =
  time :: "real list"
  flux :: "real list"
  error_attr :: "yerr option"














section \<open>plot\_corner\<close>




section \<open>plot\_psd: the component loop\<close>

type_synonym component = "string \<times> real list"

definition ls_dict :: "string \<rightharpoonup> string" where
  "ls_dict = map_of [(''Granulation'', ''--''), (''OscillationBump'', ''-.''), (''WhiteNoise'', '':'')]"

definition alpha_dict :: "string \<rightharpoonup> real" where
  "alpha_dict = map_of [(''Granulation'', 8 / 10), (''OscillationBump'', 8 / 10), (''WhiteNoise'', 6 / 10)]"

definition label_dict :: "string \<rightharpoonup> string" where
  "label_dict = map_of [(''Granulation'', ''Granulation''),
     (''OscillationBump'', ''Gaussian envelope''), (''WhiteNoise'', ''White noise'')]"

text \<open>A call of \<^verbatim>\<open>ax.loglog\<close>: the curve and the keyword arguments the call passes.\<close>

record line =
  ydata :: "real list"
  ls :: string
  color :: string
  alpha :: "real option"
  label :: "string option"

record psd_state =
  nobump_power :: "real list"
  full_power :: "real list"
  unique_labels :: "string list"
  lines :: "line list"

definition init_state :: "real list \<Rightarrow> psd_state" where
  \<comment> \<open>lines 76, 77 and 82: two arrays \<^verbatim>\<open>np.zeros(freq.size)\<close>, no label, nothing drawn\<close>
  "init_state freq =
     \<lparr>nobump_power = replicate (length freq) 0, full_power = replicate (length freq) 0,
      unique_labels = [], lines = []\<rparr>"

definition loglog :: "real list \<Rightarrow> 'a list \<Rightarrow> py_error + unit" where
  \<comment> \<open>\<^verbatim>\<open>ax.loglog(x, y, ...)\<close>: matplotlib raises ValueError unless \<open>x\<close> and \<open>y\<close> have the same
      first dimension\<close>
  "loglog x y = (if length x = length y then Inr () else Inl ValueError)"

definition white_noise_adjust :: "string \<Rightarrow> real list \<Rightarrow> real list" where
  \<comment> \<open>lines 85 and 86: \<^verbatim>\<open>if name == "WhiteNoise": power += 0.0\<close>\<close>
  "white_noise_adjust name pwr =
     (if name = ''WhiteNoise'' then map (\<lambda>x. x + 0) pwr else pwr)"

definition accumulate ::
    "real list \<Rightarrow> psd_state \<Rightarrow> string \<Rightarrow> real list \<Rightarrow> py_error + psd_state" where
  \<comment> \<open>lines 87 to 95, in the order of the source: the two sums, then the lookup of the
      label, then the call of \<^verbatim>\<open>loglog\<close> with or without the label, its keyword arguments
      looked up before the call\<close>
  "accumulate freq s name pwr =
     bind_err (if name \<noteq> ''OscillationBump'' then np_iadd (nobump_power s) pwr
               else Inr (nobump_power s)) (\<lambda>nb.
     bind_err (np_iadd (full_power s) pwr) (\<lambda>fp.
     bind_err (getitem label_dict name) (\<lambda>lbl.
       if lbl \<notin> set (unique_labels s) then
         bind_err (getitem label_dict name) (\<lambda>appended.
         bind_err (getitem ls_dict name) (\<lambda>l.
         bind_err (getitem alpha_dict name) (\<lambda>a.
         bind_err (getitem label_dict name) (\<lambda>shown.
         bind_err (loglog freq pwr) (\<lambda>_.
           Inr \<lparr>nobump_power = nb, full_power = fp,
                unique_labels = unique_labels s @ [appended],
                lines = lines s @ [\<lparr>ydata = pwr, ls = l, color = ''b'', alpha = Some a,
                                     label = Some shown\<rparr>]\<rparr>)))))
       else
         bind_err (getitem ls_dict name) (\<lambda>l.
         bind_err (getitem alpha_dict name) (\<lambda>a.
         bind_err (loglog freq pwr) (\<lambda>_.
           Inr \<lparr>nobump_power = nb, full_power = fp,
                unique_labels = unique_labels s,
                lines = lines s @ [\<lparr>ydata = pwr, ls = l, color = ''b'', alpha = Some a,
                                     label = None\<rparr>]\<rparr>))))))"

definition psd_step :: "real list \<Rightarrow> psd_state \<Rightarrow> component \<Rightarrow> py_error + psd_state" where
  \<comment> \<open>the body of the loop, lines 83 to 95\<close>
  "psd_step freq s c = accumulate freq s (fst c) (white_noise_adjust (fst c) (snd c))"

fun psd_loop :: "real list \<Rightarrow> psd_state \<Rightarrow> component list \<Rightarrow> py_error + psd_state" where
  "psd_loop freq s [] = Inr s"
| "psd_loop freq s (c # cs) = bind_err (psd_step freq s c) (\<lambda>s'. psd_loop freq s' cs)"

definition aggregate :: "real list \<Rightarrow> component list \<Rightarrow> py_error + psd_state" where
  \<comment> \<open>lines 75 to 95, from the result \<^verbatim>\<open>freq, power_list\<close> of \<^verbatim>\<open>get_psd\<close>\<close>
  "aggregate freq power_list = psd_loop freq (init_state freq) power_list"

text \<open>The same loop with the adjustment of the white noise taken out (for the comparison).\<close>

definition psd_step_unadjusted ::
    "real list \<Rightarrow> psd_state \<Rightarrow> component \<Rightarrow> py_error + psd_state" where
  "psd_step_unadjusted freq s c = accumulate freq s (fst c) (snd c)"

fun psd_loop_unadjusted ::
    "real list \<Rightarrow> psd_state \<Rightarrow> component list \<Rightarrow> py_error + psd_state" where
  "psd_loop_unadjusted freq s [] = Inr s"
| "psd_loop_unadjusted freq s (c # cs) =
     bind_err (psd_step_unadjusted freq s c) (\<lambda>s'. psd_loop_unadjusted freq s' cs)"

definition aggregate_unadjusted :: "real list \<Rightarrow> component list \<Rightarrow> py_error + psd_state" where
  "aggregate_unadjusted freq power_list = psd_loop_unadjusted freq (init_state freq) power_list"

section \<open>plot\_psd: the normalisation of the periodogram\<close>

text \<open>
  \<open>freq2\<close> and \<open>power\<close> are what \<^verbatim>\<open>LombScargle(...).autopower(...)\<close> returned (line 107);
  the periodogram itself is the library's.
\<close>

definition parseval_normalization ::
    "real list \<Rightarrow> real list \<Rightarrow> real list \<Rightarrow> py_error + real option list" where
  \<comment> \<open>lines 111 to 113; \<^verbatim>\<open>freq2[1]\<close> raises IndexError on a grid of fewer than two points\<close>
  "parseval_normalization freq2 pwr flx =
     (if length freq2 < 2 then Inl IndexError
      else
        let resolution = freq2 ! 1 - freq2 ! 0;
            variance = np_var flx;
            total = sum_list pwr
        in Inr (map (\<lambda>p.
             Option.bind variance (\<lambda>v.
             Option.bind (np_div (p * v) total) (\<lambda>q. np_div q resolution))) pwr))"

definition celerite_normalization :: "real list \<Rightarrow> real list \<Rightarrow> real option list" where
  \<comment> \<open>line 117: \<^verbatim>\<open>power / model.time.size\<close>\<close>
  "celerite_normalization tm pwr = map (\<lambda>p. np_div p (real (length tm))) pwr"

definition data_power ::
    "gp_model \<Rightarrow> bool \<Rightarrow> bool \<Rightarrow> real list \<Rightarrow> real list \<Rightarrow> py_error + real option list option" where
  \<comment> \<open>lines 105 to 117: the curve drawn over the model, \<open>None\<close> without \<open>include_data\<close>\<close>
  "data_power m include_data parseval_norm freq2 pwr =
     (if include_data then
        (if parseval_norm then
           bind_err (parseval_normalization freq2 pwr (flux m)) (\<lambda>scaled. Inr (Some scaled))
         else Inr (Some (celerite_normalization (time m) pwr)))
      else Inr None)"

text \<open>
  What \<^verbatim>\<open>plot_psd\<close> puts on the axes: the lines of the loop, the two aggregate curves
  (lines 97 and 98) and, with \<open>include_data\<close>, the normalised periodogram (line 119; line 121
  draws it once more, smoothed by the library's \<^verbatim>\<open>convolve\<close>). An error of the loop, of
  the normalisation or of a call of \<^verbatim>\<open>loglog\<close> leaves the function, nothing catches it.
  The other calls of the library in \<^verbatim>\<open>plot_psd\<close> (the figure, the decoration of the axes,
  the periodogram and its smoothing) are taken to return.
\<close>

record psd_figure =
  model_lines :: "line list"
  data_curve :: "real option list option"

definition plot_psd ::
    "gp_model \<Rightarrow> real list \<Rightarrow> component list \<Rightarrow> bool \<Rightarrow> bool \<Rightarrow> real list \<Rightarrow> real list
      \<Rightarrow> py_error + psd_figure" where
  "plot_psd m freq power_list include_data parseval_norm freq2 pwr =
     bind_err (aggregate freq power_list) (\<lambda>s.
     bind_err (loglog freq (nobump_power s)) (\<lambda>_.
     bind_err (loglog freq (full_power s)) (\<lambda>_.
     bind_err (data_power m include_data parseval_norm freq2 pwr) (\<lambda>scaled.
     bind_err (case scaled of None \<Rightarrow> Inr () | Some curve \<Rightarrow> loglog freq2 curve) (\<lambda>_.
       Inr \<lparr>model_lines = lines s @
              [\<lparr>ydata = nobump_power s, ls = ''--'', color = ''r'', alpha = Some (8 / 10),
                 label = Some ''Model without gaussian''\<rparr>,
               \<lparr>ydata = full_power s, ls = ''-'', color = ''r'', alpha = None,
                 label = Some ''Full Model''\<rparr>],
            data_curve = scaled\<rparr>)))))"

section \<open>What the curves are compared with\<close>

definition column_sum :: "component list \<Rightarrow> nat \<Rightarrow> real" where
  \<comment> \<open>the sum, over the components, of the values at index \<open>i\<close>\<close>
  "column_sum cs i = sum_list (map (\<lambda>c. snd c ! i) cs)"

definition first_occurrences :: "'a list \<Rightarrow> 'a list" where
  \<comment> \<open>the elements of a list at the positions where they occur for the first time\<close>
  "first_occurrences xs =
     map (\<lambda>i. xs ! i) (filter (\<lambda>i. xs ! i \<notin> set (take i xs)) [0..<length xs])"

definition known_names :: "string set" where
  "known_names = {''Granulation'', ''OscillationBump'', ''WhiteNoise''}"

section \<open>The loop, step by step\<close>

lemma bind_err_Inr [simp]: "bind_err (Inr v) f = f v"
  by (simp add: bind_err_def)

lemma bind_err_Inl [simp]: "bind_err (Inl e) f = Inl e"
  by (simp add: bind_err_def)

lemma label_dict_known: "label_dict n = Some l \<longleftrightarrow>
   (n = ''Granulation'' \<and> l = ''Granulation'') \<or> (n = ''OscillationBump'' \<and> l = ''Gaussian envelope'')
   \<or> (n = ''WhiteNoise'' \<and> l = ''White noise'')"
  by (auto simp: label_dict_def split: if_splits)

lemma label_dict_dom: "dom label_dict = known_names"
  by (auto simp: label_dict_def known_names_def split: if_splits)

lemma ls_dict_dom: "dom ls_dict = known_names"
  by (auto simp: ls_dict_def known_names_def split: if_splits)

lemma alpha_dict_dom: "dom alpha_dict = known_names"
  by (auto simp: alpha_dict_def known_names_def split: if_splits)

lemma label_dict_inj: "label_dict a = Some l \<Longrightarrow> label_dict b = Some l \<Longrightarrow> a = b"
  by (auto simp: label_dict_known)

lemma white_noise_adjust_id: "white_noise_adjust name pwr = pwr"
  by (simp add: white_noise_adjust_def map_idI)

lemma psd_step_unadjusted_eq: "psd_step freq s c = psd_step_unadjusted freq s c"
  by (simp add: psd_step_def psd_step_unadjusted_def white_noise_adjust_id)

lemma psd_loop_unadjusted_eq: "psd_loop freq s cs = psd_loop_unadjusted freq s cs"
  by (induction cs arbitrary: s) (simp_all add: psd_step_unadjusted_eq)

lemma psd_loop_snoc:
  "psd_loop freq s (cs @ [c]) = bind_err (psd_loop freq s cs) (\<lambda>s'. psd_step freq s' c)"
proof (induction cs arbitrary: s)
  case Nil
  show ?case by (cases "psd_step freq s c") simp_all
next
  case (Cons d ds)
  show ?case by (cases "psd_step freq s d") (simp_all add: Cons.IH)
qed

lemma accumulate_known:
  assumes "name \<in> known_names"
    and "length pwr = length (nobump_power s)" and "length pwr = length (full_power s)"
    and "length pwr = length freq"
  shows "\<exists>lbl l a. label_dict name = Some lbl \<and> ls_dict name = Some l \<and> alpha_dict name = Some a \<and>
    accumulate freq s name pwr = Inr
     \<lparr>nobump_power = (if name \<noteq> ''OscillationBump'' then map2 (+) (nobump_power s) pwr
                       else nobump_power s),
      full_power = map2 (+) (full_power s) pwr,
      unique_labels = (if lbl \<in> set (unique_labels s) then unique_labels s
                       else unique_labels s @ [lbl]),
      lines = lines s @ [\<lparr>ydata = pwr, ls = l, color = ''b'', alpha = Some a,
                label = (if lbl \<in> set (unique_labels s) then None else Some lbl)\<rparr>]\<rparr>"
proof -
  from assms(1) obtain lbl where 1: "label_dict name = Some lbl"
    using label_dict_dom by blast
  from assms(1) obtain l where 2: "ls_dict name = Some l"
    using ls_dict_dom by blast
  from assms(1) obtain a where 3: "alpha_dict name = Some a"
    using alpha_dict_dom by blast
  have 4: "getitem label_dict name = Inr lbl" "getitem ls_dict name = Inr l"
    "getitem alpha_dict name = Inr a"
    by (simp_all add: getitem_def 1 2 3)
  have 5: "np_iadd (nobump_power s) pwr = Inr (map2 (+) (nobump_power s) pwr)"
    "np_iadd (full_power s) pwr = Inr (map2 (+) (full_power s) pwr)"
    using assms(2,3) by (simp_all add: np_iadd_def)
  have 6: "loglog freq pwr = Inr ()"
    using assms(4) by (simp add: loglog_def)
  have "accumulate freq s name pwr = Inr
     \<lparr>nobump_power = (if name \<noteq> ''OscillationBump'' then map2 (+) (nobump_power s) pwr
                       else nobump_power s),
      full_power = map2 (+) (full_power s) pwr,
      unique_labels = (if lbl \<in> set (unique_labels s) then unique_labels s
                       else unique_labels s @ [lbl]),
      lines = lines s @ [\<lparr>ydata = pwr, ls = l, color = ''b'', alpha = Some a,
                label = (if lbl \<in> set (unique_labels s) then None else Some lbl)\<rparr>]\<rparr>"
    unfolding accumulate_def 4 5 6
    by (cases "name = ''OscillationBump''"; cases "lbl \<in> set (unique_labels s)") simp_all
  with 1 2 3 show ?thesis by blast
qed

lemma first_occurrences_Nil [simp]: "first_occurrences [] = []"
  by (simp add: first_occurrences_def)

lemma first_occurrences_snoc:
  "first_occurrences (xs @ [x]) = first_occurrences xs @ (if x \<in> set xs then [] else [x])"
proof -
  have "filter (\<lambda>i. (xs @ [x]) ! i \<notin> set (take i (xs @ [x]))) [0..<length xs]
      = filter (\<lambda>i. xs ! i \<notin> set (take i xs)) [0..<length xs]"
    by (rule filter_cong) (simp_all add: nth_append)
  moreover have "map (\<lambda>i. (xs @ [x]) ! i) (filter (\<lambda>i. xs ! i \<notin> set (take i xs)) [0..<length xs])
      = map (\<lambda>i. xs ! i) (filter (\<lambda>i. xs ! i \<notin> set (take i xs)) [0..<length xs])"
    by (rule map_cong) (simp_all add: nth_append)
  ultimately show ?thesis
    by (simp add: first_occurrences_def)
qed

lemma set_first_occurrences [simp]: "set (first_occurrences xs) = set xs"
  by (induction xs rule: rev_induct) (auto simp: first_occurrences_snoc)

lemma distinct_first_occurrences [simp]: "distinct (first_occurrences xs)"
  by (induction xs rule: rev_induct) (auto simp: first_occurrences_snoc)

lemma column_sum_snoc: "column_sum (cs @ [c]) i = column_sum cs i + snd c ! i"
  by (simp add: column_sum_def)


lemma label_seen:
  assumes "map Some lbls = map label_dict (first_occurrences ns)" and "label_dict n = Some l"
  shows "l \<in> set lbls \<longleftrightarrow> n \<in> set ns"
proof -
  have "Some ` set lbls = label_dict ` set ns"
    using arg_cong [OF assms(1), of set] by simp
  moreover have "Some l \<in> label_dict ` set ns \<longleftrightarrow> n \<in> set ns"
    using assms(2) label_dict_inj by (metis imageE image_eqI)
  ultimately show ?thesis by auto
qed

lemma aggregate_known:
  assumes "\<forall>c\<in>set cs. fst c \<in> known_names \<and> length (snd c) = length freq"
  shows "\<exists>s. aggregate freq cs = Inr s
    \<and> length (full_power s) = length freq \<and> length (nobump_power s) = length freq
    \<and> (\<forall>i<length freq. full_power s ! i = column_sum cs i)
    \<and> (\<forall>i<length freq. nobump_power s ! i =
          column_sum (filter (\<lambda>c. fst c \<noteq> ''OscillationBump'') cs) i)
    \<and> map Some (unique_labels s) = map label_dict (first_occurrences (map fst cs))
    \<and> length (lines s) = length cs
    \<and> (\<forall>k<length cs. ydata (lines s ! k) = snd (cs ! k)
          \<and> label (lines s ! k) =
              (if fst (cs ! k) \<in> set (take k (map fst cs)) then None
               else label_dict (fst (cs ! k))))"
  using assms
proof (induction cs rule: rev_induct)
  case Nil
  show ?case
    by (simp add: aggregate_def init_state_def column_sum_def)
next
  case (snoc c cs)
  from snoc.prems have "\<forall>c\<in>set cs. fst c \<in> known_names \<and> length (snd c) = length freq"
    by simp
  from snoc.IH [OF this] obtain s where
    run: "aggregate freq cs = Inr s"
    and len: "length (full_power s) = length freq" "length (nobump_power s) = length freq"
    and full: "\<forall>i<length freq. full_power s ! i = column_sum cs i"
    and nobump: "\<forall>i<length freq. nobump_power s ! i =
          column_sum (filter (\<lambda>c. fst c \<noteq> ''OscillationBump'') cs) i"
    and labels: "map Some (unique_labels s) = map label_dict (first_occurrences (map fst cs))"
    and nlines: "length (lines s) = length cs"
    and drawn: "\<forall>k<length cs. ydata (lines s ! k) = snd (cs ! k)
          \<and> label (lines s ! k) =
              (if fst (cs ! k) \<in> set (take k (map fst cs)) then None
               else label_dict (fst (cs ! k)))"
    by blast
  from snoc.prems have c: "fst c \<in> known_names" "length (snd c) = length freq"
    by simp_all
  from accumulate_known [of "fst c" "snd c" s freq] c len
  obtain lbl l a where lbl: "label_dict (fst c) = Some lbl"
    and acc: "accumulate freq s (fst c) (snd c) = Inr
     \<lparr>nobump_power = (if fst c \<noteq> ''OscillationBump'' then map2 (+) (nobump_power s) (snd c)
                       else nobump_power s),
      full_power = map2 (+) (full_power s) (snd c),
      unique_labels = (if lbl \<in> set (unique_labels s) then unique_labels s
                       else unique_labels s @ [lbl]),
      lines = lines s @ [\<lparr>ydata = snd c, ls = l, color = ''b'', alpha = Some a,
                label = (if lbl \<in> set (unique_labels s) then None else Some lbl)\<rparr>]\<rparr>"
    by auto
  define s' where "s' =
     \<lparr>nobump_power = (if fst c \<noteq> ''OscillationBump'' then map2 (+) (nobump_power s) (snd c)
                       else nobump_power s),
      full_power = map2 (+) (full_power s) (snd c),
      unique_labels = (if lbl \<in> set (unique_labels s) then unique_labels s
                       else unique_labels s @ [lbl]),
      lines = lines s @ [\<lparr>ydata = snd c, ls = l, color = ''b'', alpha = Some a,
                label = (if lbl \<in> set (unique_labels s) then None else Some lbl)\<rparr>]\<rparr>"
  have seen: "lbl \<in> set (unique_labels s) \<longleftrightarrow> fst c \<in> set (map fst cs)"
    by (rule label_seen [OF labels lbl])
  have 1: "aggregate freq (cs @ [c]) = Inr s'"
    using run acc
    by (simp add: aggregate_def psd_loop_snoc psd_step_def white_noise_adjust_id s'_def)
  have 2: "length (full_power s') = length freq" "length (nobump_power s') = length freq"
    using len c by (simp_all add: s'_def)
  have 3: "\<forall>i<length freq. full_power s' ! i = column_sum (cs @ [c]) i"
    using len c full by (simp add: s'_def column_sum_snoc)
  have 4: "\<forall>i<length freq. nobump_power s' ! i =
          column_sum (filter (\<lambda>c. fst c \<noteq> ''OscillationBump'') (cs @ [c])) i"
    using len c nobump by (simp add: s'_def column_sum_snoc)
  have 5: "map Some (unique_labels s') = map label_dict (first_occurrences (map fst (cs @ [c])))"
    using labels lbl seen by (simp add: s'_def first_occurrences_snoc)
  have 6: "length (lines s') = length (cs @ [c])"
    using nlines by (simp add: s'_def)
  have 7: "ydata (lines s' ! k) = snd ((cs @ [c]) ! k)
          \<and> label (lines s' ! k) =
              (if fst ((cs @ [c]) ! k) \<in> set (take k (map fst (cs @ [c]))) then None
               else label_dict (fst ((cs @ [c]) ! k)))" if "k < length (cs @ [c])" for k
  proof (cases "k < length cs")
    case True
    with drawn nlines show ?thesis
      by (simp add: s'_def nth_append)
  next
    case False
    with that have "k = length cs" by simp
    with nlines seen lbl show ?thesis
      by (simp add: s'_def nth_append)
  qed
  from 1 2 3 4 5 6 7 show ?case by blast
qed

lemma psd_loop_append:
  "psd_loop freq s (cs @ ds) = bind_err (psd_loop freq s cs) (\<lambda>s'. psd_loop freq s' ds)"
proof (induction cs arbitrary: s)
  case Nil
  show ?case by simp
next
  case (Cons c cs)
  show ?case by (cases "psd_step freq s c") (simp_all add: Cons.IH)
qed

lemma column_sum_split:
  "column_sum cs i = column_sum (filter (\<lambda>c. fst c \<noteq> n) cs) i + column_sum (filter (\<lambda>c. fst c = n) cs) i"
  by (induction cs) (simp_all add: column_sum_def)

lemma accumulate_unknown:
  assumes "name \<notin> known_names"
    and "length pwr = length (nobump_power s)" and "length pwr = length (full_power s)"
  shows "accumulate freq s name pwr = Inl (KeyError name)"
proof -
  from assms(1) have "label_dict name = None"
    using label_dict_dom by blast
  then have 1: "getitem label_dict name = Inl (KeyError name)"
    by (simp add: getitem_def)
  have 2: "np_iadd (nobump_power s) pwr = Inr (map2 (+) (nobump_power s) pwr)"
    "np_iadd (full_power s) pwr = Inr (map2 (+) (full_power s) pwr)"
    using assms(2,3) by (simp_all add: np_iadd_def)
  show ?thesis
    unfolding accumulate_def 1 2 by simp
qed

lemma np_var_Some: "xs \<noteq> [] \<Longrightarrow> \<exists>v. np_var xs = Some v"
  by (simp add: np_var_def np_mean_def np_div_def)

lemma sum_list_times: "sum_list (map (\<lambda>p. p * c) ps) = sum_list ps * (c::real)"
  by (induction ps) (simp_all add: distrib_right)

lemma sum_list_scaled: "sum_list (map (\<lambda>p. p * v / t / r) ps) = sum_list ps * (v / t / (r::real))"
proof -
  have "(\<lambda>p. p * v / t / r) = (\<lambda>p. p * (v / t / r))"
    by simp
  then show ?thesis
    by (simp only: sum_list_times)
qed

lemma find_first: "\<not> P x \<Longrightarrow> \<forall>y\<in>set ys. P y \<Longrightarrow> find (\<lambda>c. \<not> P c) (ys @ x # zs) = Some x"
  by (induction ys) simp_all

lemma label_dict_inj_on: "A \<subseteq> known_names \<Longrightarrow> inj_on label_dict A"
proof (rule inj_onI)
  fix a b
  assume "A \<subseteq> known_names" "a \<in> A" "b \<in> A" "label_dict a = label_dict b"
  moreover from this obtain l where "label_dict a = Some l"
    using label_dict_dom by blast
  ultimately show "a = b"
    by (metis label_dict_inj)
qed

lemma count_list_distinct: "distinct xs \<Longrightarrow> x \<in> set xs \<Longrightarrow> count_list xs x = 1"
  by (induction xs) auto

section \<open>The aggregate curves\<close>

text \<open>
  Claim C1. The components share a frequency grid of length \<open>N = length freq\<close> and carry
  the names that \<^verbatim>\<open>plot_psd\<close> has a style for. Then the loop ends without an error,
  \<open>full_power\<close> starts as the curve of \<open>N\<close> zeros, has length \<open>N\<close> at the end, and its
  value at every index is the sum of the values of all the components at that index.
\<close>

theorem full_power_elementwise_sum:
  assumes "\<forall>c\<in>set power_list. fst c \<in> known_names \<and> length (snd c) = length freq"
  shows "full_power (init_state freq) = replicate (length freq) 0
    \<and> (\<exists>s. aggregate freq power_list = Inr s
          \<and> length (full_power s) = length freq
          \<and> (\<forall>i<length freq. full_power s ! i = column_sum power_list i))"
proof -
  from aggregate_known [OF assms] obtain s where "aggregate freq power_list = Inr s"
    "length (full_power s) = length freq"
    "\<forall>i<length freq. full_power s ! i = column_sum power_list i"
    by blast
  then show ?thesis
    by (auto simp: init_state_def)
qed

theorem full_power_elementwise_sum_witness:
  "\<exists>s. aggregate [10, 20] [(''Granulation'', [1, 2]), (''WhiteNoise'', [3, 4]), (''Granulation'', [5, 6])] = Inr s
     \<and> length (full_power s) = 2 \<and> full_power s ! 0 = 9 \<and> full_power s ! 1 = 12"
proof -
  have h: "\<forall>c\<in>set [(''Granulation'', [1, 2]), (''WhiteNoise'', [3, 4]), (''Granulation'', [5, 6 :: real])].
      fst c \<in> known_names \<and> length (snd c) = length [10, 20 :: real]"
    by (simp add: known_names_def)
  from full_power_elementwise_sum [OF h] obtain s where
    "aggregate [10, 20] [(''Granulation'', [1, 2]), (''WhiteNoise'', [3, 4]), (''Granulation'', [5, 6])] = Inr s"
    "length (full_power s) = 2"
    "\<forall>i<2. full_power s ! i = column_sum [(''Granulation'', [1, 2]), (''WhiteNoise'', [3, 4]), (''Granulation'', [5, 6])] i"
    by auto
  then have "aggregate [10, 20] [(''Granulation'', [1, 2]), (''WhiteNoise'', [3, 4]), (''Granulation'', [5, 6])] = Inr s
     \<and> length (full_power s) = 2 \<and> full_power s ! 0 = 9 \<and> full_power s ! 1 = 12"
    by (simp add: column_sum_def)
  then show ?thesis by blast
qed

text \<open>
  Claim C2. Under the same conditions \<open>nobump_power\<close> is \<open>full_power\<close> minus the curves of
  the components named OscillationBump: with one such component it is \<open>full_power\<close> minus
  that component's curve, element by element, and with none it is \<open>full_power\<close>.
\<close>

theorem nobump_power_is_full_minus_bump:
  assumes "\<forall>c\<in>set power_list. fst c \<in> known_names \<and> length (snd c) = length freq"
  shows "\<exists>s. aggregate freq power_list = Inr s
    \<and> length (nobump_power s) = length freq \<and> length (full_power s) = length freq
    \<and> (\<forall>i<length freq. nobump_power s ! i =
          full_power s ! i - column_sum (filter (\<lambda>c. fst c = ''OscillationBump'') power_list) i)
    \<and> (\<forall>bump. filter (\<lambda>c. fst c = ''OscillationBump'') power_list = [(''OscillationBump'', bump)]
          \<longrightarrow> nobump_power s = map2 (-) (full_power s) bump)
    \<and> (''OscillationBump'' \<notin> fst ` set power_list \<longrightarrow> nobump_power s = full_power s)"
proof -
  let ?bumps = "filter (\<lambda>c. fst c = ''OscillationBump'') power_list"
  from aggregate_known [OF assms] obtain s where run: "aggregate freq power_list = Inr s"
    and len: "length (full_power s) = length freq" "length (nobump_power s) = length freq"
    and full: "\<forall>i<length freq. full_power s ! i = column_sum power_list i"
    and nobump: "\<forall>i<length freq. nobump_power s ! i =
          column_sum (filter (\<lambda>c. fst c \<noteq> ''OscillationBump'') power_list) i"
    by blast
  have diff: "\<forall>i<length freq. nobump_power s ! i = full_power s ! i - column_sum ?bumps i"
    using full nobump column_sum_split [of power_list _ "''OscillationBump''"] by simp
  have one: "nobump_power s = map2 (-) (full_power s) bump"
    if "?bumps = [(''OscillationBump'', bump)]" for bump
  proof -
    have "(''OscillationBump'', bump) \<in> set ?bumps"
      using that by simp
    then have "(''OscillationBump'', bump) \<in> set power_list"
      by simp
    with assms have lb: "length bump = length freq"
      by fastforce
    show ?thesis
      using len lb diff that by (intro nth_equalityI) (simp_all add: column_sum_def)
  qed
  have none: "nobump_power s = full_power s" if "''OscillationBump'' \<notin> fst ` set power_list"
  proof -
    have "?bumps = []"
      using that by (force simp: filter_empty_conv)
    with len diff show ?thesis
      by (intro nth_equalityI) (simp_all add: column_sum_def)
  qed
  from run len diff one none show ?thesis by blast
qed

theorem nobump_power_is_full_minus_bump_witness:
  "\<exists>s. aggregate [1, 2, 3] [(''Granulation'', [4, 2, 1]), (''OscillationBump'', [0, 3, 0])] = Inr s
     \<and> nobump_power s = map2 (-) (full_power s) [0, 3, 0]"
proof -
  have h: "\<forall>c\<in>set [(''Granulation'', [4, 2, 1]), (''OscillationBump'', [0, 3, 0 :: real])].
      fst c \<in> known_names \<and> length (snd c) = length [1, 2, 3 :: real]"
    by (simp add: known_names_def)
  have f: "filter (\<lambda>c. fst c = ''OscillationBump'')
      [(''Granulation'', [4, 2, 1]), (''OscillationBump'', [0, 3, 0 :: real])]
      = [(''OscillationBump'', [0, 3, 0])]"
    by simp
  from nobump_power_is_full_minus_bump [OF h] f obtain s where
    "aggregate [1, 2, 3] [(''Granulation'', [4, 2, 1]), (''OscillationBump'', [0, 3, 0])] = Inr s"
    "nobump_power s = map2 (-) (full_power s) [0, 3, 0]"
    by blast
  then show ?thesis by blast
qed

text \<open>
  Claim C6. The adjustment of the white noise adds zero to every value of the curve, so
  it leaves the curve as it is, and the loop gives the same outcome (the two aggregates,
  the labels, the lines drawn, or the error) as the loop without the adjustment, for
  every list of components.
\<close>

theorem white_noise_adjustment_inert:
  "white_noise_adjust name pwr = pwr
   \<and> aggregate freq power_list = aggregate_unadjusted freq power_list"
  by (simp add: white_noise_adjust_id aggregate_def aggregate_unadjusted_def psd_loop_unadjusted_eq)

text \<open>
  Claim C8. The scenario of three components on a grid of three frequencies:
  \<open>full_power\<close> is \<open>[5, 6, 2]\<close>, \<open>nobump_power\<close> is \<open>[5, 3, 2]\<close>, and the labels recorded
  are Granulation, Gaussian envelope and White noise.
\<close>

theorem concrete_scenario:
  "\<exists>s. aggregate [f0, f1, f2]
          [(''Granulation'', [4, 2, 1]), (''OscillationBump'', [0, 3, 0]), (''WhiteNoise'', [1, 1, 1])] = Inr s
     \<and> full_power s = [5, 6, 2] \<and> nobump_power s = [5, 3, 2]
     \<and> unique_labels s = [''Granulation'', ''Gaussian envelope'', ''White noise'']
     \<and> set (unique_labels s) = {''Granulation'', ''Gaussian envelope'', ''White noise''}"
  by (simp add: aggregate_def init_state_def psd_step_def accumulate_def white_noise_adjust_def
      np_iadd_def loglog_def getitem_def label_dict_def ls_dict_def alpha_dict_def numeral_3_eq_3)

text \<open>
  Claim C9. The components share the grid, and one of them has a name that is not a key
  of the three dicts. Then \<^verbatim>\<open>plot_psd\<close> raises KeyError with the first such name: the
  loop reaches that component and fails at the lookup of its label.
\<close>

theorem unknown_name_raises_KeyError:
  assumes "\<forall>c\<in>set power_list. length (snd c) = length freq"
    and "\<exists>c\<in>set power_list. fst c \<notin> known_names"
  shows "\<exists>c. find (\<lambda>c. fst c \<notin> known_names) power_list = Some c
    \<and> aggregate freq power_list = Inl (KeyError (fst c))
    \<and> plot_psd m freq power_list include_data parseval_norm freq2 pwr = Inl (KeyError (fst c))"
proof -
  from split_list_first_prop [OF assms(2)] obtain pre c post where
    pl: "power_list = pre @ c # post" and c: "fst c \<notin> known_names"
    and pre: "\<forall>d\<in>set pre. \<not> fst d \<notin> known_names"
    by blast
  have found: "find (\<lambda>c. fst c \<notin> known_names) power_list = Some c"
    unfolding pl using c pre by (intro find_first) simp_all
  from assms(1) pre have "\<forall>d\<in>set pre. fst d \<in> known_names \<and> length (snd d) = length freq"
    by (simp add: pl)
  from aggregate_known [OF this] obtain s where run: "aggregate freq pre = Inr s"
    and len: "length (full_power s) = length freq" "length (nobump_power s) = length freq"
    by blast
  from assms(1) have "length (snd c) = length freq"
    by (simp add: pl)
  with len c have "psd_step freq s c = Inl (KeyError (fst c))"
    by (simp add: psd_step_def white_noise_adjust_id accumulate_unknown)
  with run have failed: "aggregate freq power_list = Inl (KeyError (fst c))"
    by (simp add: aggregate_def pl psd_loop_append)
  then have "plot_psd m freq power_list include_data parseval_norm freq2 pwr
      = Inl (KeyError (fst c))"
    by (simp add: plot_psd_def)
  with found failed show ?thesis by blast
qed

theorem unknown_name_raises_KeyError_witness:
  "''Rotation'' \<notin> known_names
   \<and> aggregate [10, 20] [(''Granulation'', [4, 2]), (''Rotation'', [1, 1]), (''WhiteNoise'', [1, 1])]
       = Inl (KeyError ''Rotation'')
   \<and> plot_psd \<lparr>time = [0, 1], flux = [2, 3], error_attr = None\<rparr> [10, 20]
        [(''Granulation'', [4, 2]), (''Rotation'', [1, 1]), (''WhiteNoise'', [1, 1])] True False
        [1, 2] [3, 4]
       = Inl (KeyError ''Rotation'')"
proof -
  have h: "\<forall>c\<in>set [(''Granulation'', [4, 2]), (''Rotation'', [1, 1]), (''WhiteNoise'', [1, 1 :: real])].
       length (snd c) = length [10, 20 :: real]"
    "\<exists>c\<in>set [(''Granulation'', [4, 2]), (''Rotation'', [1, 1]), (''WhiteNoise'', [1, 1 :: real])].
       fst c \<notin> known_names"
    by (simp_all add: known_names_def)
  have "find (\<lambda>c. fst c \<notin> known_names)
      [(''Granulation'', [4, 2]), (''Rotation'', [1, 1]), (''WhiteNoise'', [1, 1 :: real])]
      = Some (''Rotation'', [1, 1])"
    by (simp add: known_names_def)
  with unknown_name_raises_KeyError [OF h,
      of "\<lparr>time = [0, 1], flux = [2, 3], error_attr = None\<rparr>" True False "[1, 2]" "[3, 4]"]
  have "aggregate [10, 20] [(''Granulation'', [4, 2]), (''Rotation'', [1, 1]), (''WhiteNoise'', [1, 1])]
       = Inl (KeyError ''Rotation'')
   \<and> plot_psd \<lparr>time = [0, 1], flux = [2, 3], error_attr = None\<rparr> [10, 20]
        [(''Granulation'', [4, 2]), (''Rotation'', [1, 1]), (''WhiteNoise'', [1, 1])] True False
        [1, 2] [3, 4]
       = Inl (KeyError ''Rotation'')"
    by auto
  then show ?thesis by (simp add: known_names_def)
qed

section \<open>The legend\<close>

text \<open>
  Claim C4. For components that share the grid and carry known names, every name of the
  list has its label in \<open>unique_labels\<close> exactly once, however many curves carry the
  name: the labels are distinct and there are as many as there are distinct names. One
  line is drawn per component, with the label when the name occurs for the first time in
  the list and without a label otherwise.
\<close>

theorem one_legend_label_per_name:
  assumes "\<forall>c\<in>set power_list. fst c \<in> known_names \<and> length (snd c) = length freq"
  shows "\<exists>s. aggregate freq power_list = Inr s
    \<and> distinct (unique_labels s)
    \<and> length (unique_labels s) = card (fst ` set power_list)
    \<and> (\<forall>n\<in>fst ` set power_list.
          \<exists>l. label_dict n = Some l \<and> count_list (unique_labels s) l = 1)
    \<and> length (lines s) = length power_list
    \<and> (\<forall>k<length power_list. label (lines s ! k) =
          (if fst (power_list ! k) \<in> set (take k (map fst power_list)) then None
           else label_dict (fst (power_list ! k))))"
proof -
  let ?names = "map fst power_list"
  from aggregate_known [OF assms] obtain s where run: "aggregate freq power_list = Inr s"
    and labels: "map Some (unique_labels s) = map label_dict (first_occurrences ?names)"
    and nlines: "length (lines s) = length power_list"
    and drawn: "\<forall>k<length power_list. ydata (lines s ! k) = snd (power_list ! k)
          \<and> label (lines s ! k) =
              (if fst (power_list ! k) \<in> set (take k ?names) then None
               else label_dict (fst (power_list ! k)))"
    by blast
  from assms have known: "set ?names \<subseteq> known_names"
    by auto
  have "set (first_occurrences ?names) \<subseteq> known_names"
    using known by (simp only: set_first_occurrences)
  then have "inj_on label_dict (set (first_occurrences ?names))"
    by (rule label_dict_inj_on)
  then have "distinct (map label_dict (first_occurrences ?names))"
    using distinct_first_occurrences [of ?names] by (simp only: distinct_map simp_thms)
  then have "distinct (map Some (unique_labels s))"
    by (simp only: labels)
  then have dist: "distinct (unique_labels s)"
    by (simp only: distinct_map)
  have "length (map Some (unique_labels s)) = length (map label_dict (first_occurrences ?names))"
    by (simp only: labels)
  then have "length (unique_labels s) = length (first_occurrences ?names)"
    by (simp only: length_map)
  also have "\<dots> = card (set (first_occurrences ?names))"
    by (rule distinct_card [OF distinct_first_occurrences, symmetric])
  also have "\<dots> = card (fst ` set power_list)"
    by (simp only: set_first_occurrences set_map)
  finally have len: "length (unique_labels s) = card (fst ` set power_list)" .
  have once: "\<forall>n\<in>fst ` set power_list.
      \<exists>l. label_dict n = Some l \<and> count_list (unique_labels s) l = 1"
  proof
    fix n
    assume n: "n \<in> fst ` set power_list"
    then have mem: "n \<in> set ?names"
      by (simp only: set_map)
    with known have "n \<in> dom label_dict"
      unfolding label_dict_dom by (rule subsetD)
    then obtain l where l: "label_dict n = Some l"
      by (auto simp only: dom_def mem_Collect_eq not_None_eq)
    from mem have "l \<in> set (unique_labels s)"
      by (simp only: label_seen [OF labels l])
    with dist have "count_list (unique_labels s) l = 1"
      by (rule count_list_distinct)
    with l show "\<exists>l. label_dict n = Some l \<and> count_list (unique_labels s) l = 1"
      by (intro exI conjI)
  qed
  from drawn have drawn': "\<forall>k<length power_list. label (lines s ! k) =
          (if fst (power_list ! k) \<in> set (take k ?names) then None
           else label_dict (fst (power_list ! k)))"
    by (intro allI impI) (elim allE impE conjE, assumption+)
  show ?thesis
    by (intro exI [of _ s] conjI) (fact run dist len once nlines drawn')+
qed


theorem one_legend_label_per_name_witness:
  "\<exists>s. aggregate [7] [(''Granulation'', [1]), (''Granulation'', [2]), (''WhiteNoise'', [3])] = Inr s
     \<and> length (unique_labels s) = 2
     \<and> count_list (unique_labels s) ''Granulation'' = 1
     \<and> label (lines s ! 0) = Some ''Granulation''
     \<and> label (lines s ! 1) = None
     \<and> label (lines s ! 2) = Some ''White noise''"
proof -
  have h: "\<forall>c\<in>set [(''Granulation'', [1]), (''Granulation'', [2]), (''WhiteNoise'', [3 :: real])].
      fst c \<in> known_names \<and> length (snd c) = length [7 :: real]"
    by (simp add: known_names_def)
  from one_legend_label_per_name [OF h] obtain s where
    run: "aggregate [7] [(''Granulation'', [1]), (''Granulation'', [2]), (''WhiteNoise'', [3])] = Inr s"
    and len: "length (unique_labels s)
        = card (fst ` set [(''Granulation'', [1]), (''Granulation'', [2]), (''WhiteNoise'', [3 :: real])])"
    and once: "\<forall>n\<in>fst ` set [(''Granulation'', [1]), (''Granulation'', [2]), (''WhiteNoise'', [3 :: real])].
          \<exists>l. label_dict n = Some l \<and> count_list (unique_labels s) l = 1"
    and drawn: "\<forall>k<length [(''Granulation'', [1]), (''Granulation'', [2]), (''WhiteNoise'', [3 :: real])].
        label (lines s ! k) =
          (if fst ([(''Granulation'', [1]), (''Granulation'', [2]), (''WhiteNoise'', [3 :: real])] ! k)
               \<in> set (take k (map fst [(''Granulation'', [1]), (''Granulation'', [2]), (''WhiteNoise'', [3 :: real])]))
           then None
           else label_dict (fst ([(''Granulation'', [1 :: real]), (''Granulation'', [2]), (''WhiteNoise'', [3])] ! k)))"
    by blast
  from len have 1: "length (unique_labels s) = 2"
    by simp
  from once have 2: "count_list (unique_labels s) ''Granulation'' = 1"
    by (simp add: label_dict_def)
  from drawn have 3: "label (lines s ! 0) = Some ''Granulation''"
    by (simp add: label_dict_def)
  from drawn have 4: "label (lines s ! 1) = None"
    by simp
  from drawn have "2 < (3::nat) \<longrightarrow> label (lines s ! 2) = Some ''White noise''"
    by (simp add: label_dict_def numeral_2_eq_2 numeral_3_eq_3)
  then have 5: "label (lines s ! 2) = Some ''White noise''"
    by simp
  from run 1 2 3 4 5 show ?thesis by blast
qed

text \<open>
  Claim C10. \<open>unique_labels\<close> is a sequence: for components that share the grid and carry
  known names it lists the labels of the distinct names in the order in which the names
  occur for the first time in the list.
\<close>

theorem labels_in_order_of_first_occurrence:
  assumes "\<forall>c\<in>set power_list. fst c \<in> known_names \<and> length (snd c) = length freq"
  shows "\<exists>s. aggregate freq power_list = Inr s
    \<and> map Some (unique_labels s) = map label_dict (first_occurrences (map fst power_list))"
  using aggregate_known [OF assms] by blast

theorem labels_in_order_of_first_occurrence_witness:
  "\<exists>s. aggregate [7] [(''WhiteNoise'', [1]), (''Granulation'', [2]), (''WhiteNoise'', [3])] = Inr s
     \<and> unique_labels s = [''White noise'', ''Granulation'']"
proof -
  have h: "\<forall>c\<in>set [(''WhiteNoise'', [1]), (''Granulation'', [2]), (''WhiteNoise'', [3 :: real])].
      fst c \<in> known_names \<and> length (snd c) = length [7 :: real]"
    by (simp add: known_names_def)
  have fo: "first_occurrences [''WhiteNoise'', ''Granulation'', ''WhiteNoise'']
      = [''WhiteNoise'', ''Granulation'']"
    using first_occurrences_snoc [of "[''WhiteNoise'', ''Granulation'']" "''WhiteNoise''"]
      first_occurrences_snoc [of "[''WhiteNoise'']" "''Granulation''"]
      first_occurrences_snoc [of "[]" "''WhiteNoise''"]
    by simp
  from labels_in_order_of_first_occurrence [OF h] obtain s where
    run: "aggregate [7] [(''WhiteNoise'', [1]), (''Granulation'', [2]), (''WhiteNoise'', [3])] = Inr s"
    and "map Some (unique_labels s) = map label_dict [''WhiteNoise'', ''Granulation'']"
    by (auto simp: fo)
  then have "map Some (unique_labels s) = map Some [''White noise'', ''Granulation'']"
    by (simp add: label_dict_def)
  then have "unique_labels s = [''White noise'', ''Granulation'']"
    by (simp only: inj_map_eq_map [OF inj_Some])
  with run show ?thesis by blast
qed

section \<open>The periodogram of the data\<close>

text \<open>
  Claim C3. With \<open>include_data\<close> and \<open>parseval_norm\<close>, a periodogram whose values sum to
  more than zero, on a strictly increasing frequency grid of two points or more, and a
  flux that has a variance (it is not empty): every value is scaled to
  \<open>power * variance / sum(power) / resolution\<close>, where the resolution is the gap between
  the first two frequencies, and the sum of the scaled curve times the resolution is the
  variance of the flux.
\<close>

theorem parseval_sum_is_variance:
  assumes "0 < sum_list pwr" and "2 \<le> length freq2" and "sorted_wrt (<) freq2"
    and "flux m \<noteq> []"
  shows "\<exists>variance scaled. np_var (flux m) = Some variance
    \<and> data_power m True True freq2 pwr = Inr (Some (map Some scaled))
    \<and> scaled = map (\<lambda>p. p * variance / sum_list pwr / (freq2 ! 1 - freq2 ! 0)) pwr
    \<and> sum_list scaled * (freq2 ! 1 - freq2 ! 0) = variance"
proof -
  from assms(4) obtain variance where v: "np_var (flux m) = Some variance"
    using np_var_Some by blast
  from assms(2,3) have "freq2 ! 0 < freq2 ! 1"
    by (simp add: sorted_wrt_iff_nth_less)
  then have r: "freq2 ! 1 - freq2 ! 0 \<noteq> 0"
    by simp
  let ?scaled = "map (\<lambda>p. p * variance / sum_list pwr / (freq2 ! 1 - freq2 ! 0)) pwr"
  have "data_power m True True freq2 pwr = Inr (Some (map Some ?scaled))"
    using assms(1,2) r v
    by (simp add: data_power_def parseval_normalization_def np_div_def Let_def comp_def)
  moreover have "sum_list ?scaled * (freq2 ! 1 - freq2 ! 0) = variance"
  proof -
    have "sum_list ?scaled * (freq2 ! 1 - freq2 ! 0)
        = sum_list pwr * (variance / sum_list pwr / (freq2 ! 1 - freq2 ! 0)) * (freq2 ! 1 - freq2 ! 0)"
      by (simp only: sum_list_scaled)
    also have "\<dots> = variance"
      using assms(1) r by simp
    finally show ?thesis .
  qed
  ultimately show ?thesis
    using v by blast
qed

theorem parseval_sum_is_variance_witness:
  "0 < sum_list [1, 3 :: real] \<and> 2 \<le> length [1, 2 :: real] \<and> sorted_wrt (<) [1, 2 :: real]
   \<and> flux \<lparr>time = [0, 1], flux = [1, 3], error_attr = None\<rparr> \<noteq> []
   \<and> np_var (flux \<lparr>time = [0, 1], flux = [1, 3], error_attr = None\<rparr>) = Some 1
   \<and> data_power \<lparr>time = [0, 1], flux = [1, 3], error_attr = None\<rparr> True True [1, 2] [1, 3]
       = Inr (Some [Some (1 / 4), Some (3 / 4)])
   \<and> sum_list [1 / 4, 3 / 4 :: real] * ([1, 2] ! 1 - [1, 2] ! 0) = 1"
proof -
  let ?m = "\<lparr>time = [0, 1], flux = [1, 3], error_attr = None\<rparr>"
  have h: "0 < sum_list [1, 3 :: real]" "2 \<le> length [1, 2 :: real]" "sorted_wrt (<) [1, 2 :: real]"
    "flux ?m \<noteq> []"
    by simp_all
  have v: "np_var (flux ?m) = Some 1"
    by (simp add: np_var_def np_mean_def np_div_def power2_eq_square)
  from parseval_sum_is_variance [OF h] v
  have "data_power ?m True True [1, 2] [1, 3] = Inr (Some [Some (1 / 4), Some (3 / 4)])
    \<and> sum_list [1 / 4, 3 / 4 :: real] * ([1, 2] ! 1 - [1, 2] ! 0) = 1"
    by simp
  with h v show ?thesis by simp
qed

text \<open>
  Claim C5. With \<open>include_data\<close> and without \<open>parseval_norm\<close>, every value of the
  periodogram is divided by the number of samples of the time series, and nothing else
  happens to the curve.
\<close>

theorem per_sample_division:
  assumes "time m \<noteq> []"
  shows "data_power m True False freq2 pwr
      = Inr (Some (map (\<lambda>p. Some (p / real (length (time m)))) pwr))"
  using assms by (simp add: data_power_def celerite_normalization_def np_div_def)

theorem per_sample_division_witness:
  "time \<lparr>time = [0, 1, 2, 3], flux = [5, 6, 5, 6], error_attr = None\<rparr> \<noteq> []
   \<and> data_power \<lparr>time = [0, 1, 2, 3], flux = [5, 6, 5, 6], error_attr = None\<rparr> True False
        [1, 2, 3, 4] [2, 2, 2, 2]
       = Inr (Some [Some (1 / 2), Some (1 / 2), Some (1 / 2), Some (1 / 2)])"
proof -
  have h: "time \<lparr>time = [0, 1, 2, 3], flux = [5, 6, 5, 6], error_attr = None\<rparr> \<noteq> []"
    by simp
  from per_sample_division [OF h, of "[1, 2, 3, 4]" "[2, 2, 2, 2]"] h show ?thesis
    by simp
qed

section \<open>Errors that are caught, errors that are not\<close>













end
